theory Spec2Isabelle
  imports Main "HOL-Library.AList"
begin

section \<open>Data model of the validation tracker\<close>

text \<open>
  The messages of the two rippled streams, the decoded manifest of a validator-list
  entry, and the data handed to the two external callbacks. JavaScript numbers that
  carry sequence numbers are integers here; a JavaScript object used as a dictionary
  whose keys are enumerated (\<open>Object.keys\<close>) is an association list in insertion
  order, and one that is only read, written and deleted by key is a map.
\<close>

record ValidationMessage =
  amendments :: "string list option"
  base_fee :: "int option"
  flags :: int
  full :: bool
  ledger_hash :: string
  ledger_index :: string
  load_fee :: "int option"
  reserve_base :: "int option"
  reserve_inc :: "int option"
  signature :: string
  signing_time :: int
  validation_public_key :: string
  timestamp :: "int option"

record ManifestMessage =
  master_key :: string
  mm_signing_key :: string
  seq :: int

record Manifest =
  SigningPubKey :: string
  manifest_Sequence :: int

record validator =
  signing_key :: string
  Sequence :: int

record unl_data =
  isDuringStartup :: bool
  isNewValidator :: bool
  isNewManifest :: bool
  validatorName :: string
  validation_public_key_base58 :: string
  unl_signing_key :: string
  unl_Sequence :: int
  isFromManifestsStream :: "bool option"

text \<open>One element of \<open>validatorList.validators\<close>, and the decoded blob.\<close>

record list_entry =
  entry_validation_public_key :: string
  entry_manifest :: string

record validatorList =
  vl_sequence :: int
  vl_validators :: "list_entry list"

text \<open>
  What \<open>request.get\<close> and the decoding of \<open>data.blob\<close> hand to the body of
  \<open>getUNL\<close>: the request is rejected, the blob does not parse, or a validator list.
\<close>

datatype response = RequestRejected | BlobMalformed | Blob validatorList

datatype error = RequestFailed | BlobParseError | EncodeError | ManifestDecodeError

text \<open>
  The libraries and services the tracker calls. \<open>hexToBase58\<close> stands for
  \<open>addressCodec.encodeNodePublic (toBytes hex)\<close>, \<open>codec_decode\<close> for lines
  455 to 457 (base64 to hex to \<open>codec.decode\<close>), both \<open>None\<close> where the
  library throws. \<open>data_api\<close> is the Data API's answer for a validator:
  \<open>Some domain\<close> when the request succeeds with a non-empty \<open>domain\<close>.
\<close>

record env =
  hexToBase58 :: "string \<Rightarrow> string option"
  codec_decode :: "string \<Rightarrow> Manifest option"
  data_api :: "string \<Rightarrow> string option"

text \<open>The mutable fields of class \<open>Network\<close> that hold the validator registry.\<close>

record network =
  lastValidatorListSequence :: int
  validators :: "(string \<times> validator) list"
  names :: "string \<rightharpoonup> string"
  manifestKeys :: "string \<rightharpoonup> string"

definition new_Network :: network where
  "new_Network =
     \<lparr>lastValidatorListSequence = 0, validators = [], names = Map.empty,
      manifestKeys = Map.empty\<rparr>"

text \<open>The external callbacks a \<open>Network\<close> invokes, in the order it invokes them.\<close>

datatype emitted = OnUnlData unl_data | OnValidationReceived ValidationMessage

section \<open>Utility methods\<close>

text \<open>\<open>remove(array, element)\<close>: splice out the first occurrence, if any.\<close>

definition remove_elem :: "string list \<Rightarrow> string \<Rightarrow> string list" where
  "remove_elem array element = remove1 element array"

section \<open>Network\<close>

text \<open>
  \<open>fetchName\<close>: a cached name is returned as it is; otherwise the Data API is asked,
  a domain it returns is cached, and the key itself is the fallback.
\<close>

definition fetchName :: "env \<Rightarrow> network \<Rightarrow> string \<Rightarrow> string \<times> network" where
  "fetchName e st key =
     (case names st key of
        Some n \<Rightarrow> (n, st)
      | None \<Rightarrow>
          (case data_api e key of
             Some domain \<Rightarrow> (domain, st\<lparr>names := (names st)(key \<mapsto> domain)\<rparr>)
           | None \<Rightarrow> (key, st)))"

text \<open>
  The closure \<open>onManifestReceived\<close> of \<open>subscribeToRippleds\<close>
  (lines 332 to 363).
\<close>

definition onManifestReceived ::
  "env \<Rightarrow> network \<Rightarrow> ManifestMessage \<Rightarrow> network \<times> emitted list" where
  "onManifestReceived e st m =
     (case map_of (validators st) (master_key m) of
        None \<Rightarrow> (st, [])
      | Some v \<Rightarrow>
          if Sequence v < seq m then
            let st1 = st\<lparr>manifestKeys := (manifestKeys st)(signing_key v := None)\<rparr>;
                st2 = st1\<lparr>validators :=
                        AList.update (master_key m)
                          (v\<lparr>signing_key := mm_signing_key m, Sequence := seq m\<rparr>)
                          (validators st1)\<rparr>;
                st3 = st2\<lparr>manifestKeys :=
                        (manifestKeys st2)(mm_signing_key m \<mapsto> master_key m)\<rparr>;
                (name, st4) = fetchName e st3 (master_key m)
            in (st4,
                [OnUnlData
                   \<lparr>isDuringStartup = False, isNewValidator = False, isNewManifest = True,
                    validatorName = name, validation_public_key_base58 = master_key m,
                    unl_signing_key = mm_signing_key m, unl_Sequence = seq m,
                    isFromManifestsStream = Some True\<rparr>])
          else (st, []))"

text \<open>
  The body of the first loop of \<open>getUNL\<close> (lines 452 to 488) for one entry.
  Every call that can throw comes before the first write to the registry, so an entry
  either throws and leaves the registry as it was, or runs to its end. The local array
  \<open>validatorsToDelete\<close> is threaded through.
\<close>

definition applyEntry ::
  "env \<Rightarrow> bool \<Rightarrow> network \<Rightarrow> string list \<Rightarrow> list_entry \<Rightarrow>
   error + (network \<times> string list \<times> emitted list)" where
  "applyEntry e startup st validatorsToDelete entry =
     (case hexToBase58 e (entry_validation_public_key entry) of
        None \<Rightarrow> Inl EncodeError
      | Some vpk \<Rightarrow>
          let toDelete = remove_elem validatorsToDelete vpk in
          (case codec_decode e (entry_manifest entry) of
             None \<Rightarrow> Inl ManifestDecodeError
           | Some manifest \<Rightarrow>
               if (case map_of (validators st) vpk of
                     None \<Rightarrow> True
                   | Some v \<Rightarrow> Sequence v < manifest_Sequence manifest)
               then
                 (case hexToBase58 e (SigningPubKey manifest) of
                    None \<Rightarrow> Inl EncodeError
                  | Some sk \<Rightarrow>
                      let sq = manifest_Sequence manifest;
                          (newValidator, st1) =
                            (case map_of (validators st) vpk of
                               Some v \<Rightarrow>
                                 (False,
                                  st\<lparr>validators :=
                                       AList.update vpk
                                         (v\<lparr>signing_key := sk, Sequence := sq\<rparr>)
                                         (validators st)\<rparr>)
                             | None \<Rightarrow>
                                 (True,
                                  st\<lparr>validators :=
                                       AList.update vpk
                                         \<lparr>signing_key = sk, Sequence = sq\<rparr>
                                         (validators st)\<rparr>));
                          (name, st2) = fetchName e st1 vpk;
                          st3 = st2\<lparr>manifestKeys := (manifestKeys st2)(sk \<mapsto> vpk)\<rparr>
                      in Inr (st3, toDelete,
                              [OnUnlData
                                 \<lparr>isDuringStartup = startup, isNewValidator = newValidator,
                                  isNewManifest = True, validatorName = name,
                                  validation_public_key_base58 = vpk,
                                  unl_signing_key = sk, unl_Sequence = sq,
                                  isFromManifestsStream = None\<rparr>]))
               else Inr (st, toDelete, [])))"

text \<open>
  The first loop: entries in order, stopping at the first one that throws with
  everything the earlier entries wrote still in place.
\<close>

fun forEntries ::
  "env \<Rightarrow> bool \<Rightarrow> network \<Rightarrow> string list \<Rightarrow> emitted list \<Rightarrow> list_entry list \<Rightarrow>
   error option \<times> network \<times> string list \<times> emitted list" where
  "forEntries e startup st del out [] = (None, st, del, out)"
| "forEntries e startup st del out (entry # rest) =
     (case applyEntry e startup st del entry of
        Inl err \<Rightarrow> (Some err, st, del, out)
      | Inr (st', del', evs) \<Rightarrow> forEntries e startup st' del' (out @ evs) rest)"

text \<open>The second loop (lines 490 to 492): \<open>delete this.validators[validator]\<close>.\<close>

fun deleteValidators :: "string list \<Rightarrow> (string \<times> validator) list \<Rightarrow> (string \<times> validator) list" where
  "deleteValidators [] vs = vs"
| "deleteValidators (k # ks) vs = deleteValidators ks (AList.delete k vs)"

text \<open>
  \<open>getUNL\<close>, from the response of the request to the end of the \<open>then\<close> callback.
  The result is the registry, the callbacks invoked, and the exception that ended the
  callback, if one did. The callback is taken as one step: the \<open>await\<close> of line 477
  is a point where a peer frame could be handled in between, and such interleavings are
  runs this model does not have.
\<close>

definition getUNL :: "env \<Rightarrow> network \<Rightarrow> response \<Rightarrow> network \<times> emitted list \<times> error option" where
  "getUNL e st r =
     (case r of
        RequestRejected \<Rightarrow> (st, [], Some RequestFailed)
      | BlobMalformed \<Rightarrow> (st, [], Some BlobParseError)
      | Blob vl \<Rightarrow>
          if vl_sequence vl \<le> lastValidatorListSequence st then (st, [], None)
          else
            let st1 = st\<lparr>lastValidatorListSequence := vl_sequence vl\<rparr>;
                validatorsToDelete = map fst (validators st1);
                startup = (length validatorsToDelete = 0)
            in (case forEntries e startup st1 validatorsToDelete [] (vl_validators vl) of
                  (Some err, st2, del, out) \<Rightarrow> (st2, out, Some err)
                | (None, st2, del, out) \<Rightarrow>
                    (st2\<lparr>validators := deleteValidators del (validators st2)\<rparr>, out, None)))"

section \<open>ValidationStream\<close>

text \<open>
  A parsed frame of the peer, in the order the \<open>message\<close> handler tests it; the events
  of the socket and of the heartbeat timer; and what a handler does to the outside: the
  three callbacks of the constructor's options, \<open>ws.terminate\<close> and \<open>ws.send\<close>.
\<close>

datatype frame =
  validationReceived ValidationMessage
| manifestReceived ManifestMessage
| unknownStream
| unexpected

datatype cause = Error string | CodeReason int string

datatype ws_event =
  Open | Ping | WsError | Close int string | Message frame | PingTimeoutElapsed

datatype action =
  onValidationReceived_call ValidationMessage
| onManifestReceived_call ManifestMessage
| onClose_call cause
| terminate
| send string

text \<open>
  The state of one stream: the option \<open>useHeartbeat\<close> and whether the timer
  \<open>pingTimeout\<close> is pending.
\<close>

record ValidationStream =
  useHeartbeat :: bool
  pingTimeout :: bool

definition new_ValidationStream :: "bool \<Rightarrow> ValidationStream" where
  "new_ValidationStream heartbeat = \<lparr>useHeartbeat = heartbeat, pingTimeout = False\<rparr>"

text \<open>
  All listeners registered by the constructor for one event, run in the order they were
  registered. \<open>now\<close> is the value of \<open>moment()\<close>.
\<close>

fun emit :: "ValidationStream \<Rightarrow> int \<Rightarrow> ws_event \<Rightarrow> ValidationStream \<times> action list" where
  "emit vs now Open =
     ((if useHeartbeat vs then vs\<lparr>pingTimeout := True\<rparr> else vs),
      [send ''validations'', send ''manifests''])"
| "emit vs now Ping =
     ((if useHeartbeat vs then vs\<lparr>pingTimeout := True\<rparr> else vs), [])"
| "emit vs now WsError = (vs, [])"
| "emit vs now (Close code reason) =
     (if useHeartbeat vs
      then (vs\<lparr>pingTimeout := False\<rparr>,
            [onClose_call (CodeReason code reason), onClose_call (CodeReason code reason)])
      else (vs, [onClose_call (CodeReason code reason)]))"
| "emit vs now (Message (validationReceived v)) =
     (vs, [onValidationReceived_call (v\<lparr>timestamp := Some now\<rparr>)])"
| "emit vs now (Message (manifestReceived m)) = (vs, [onManifestReceived_call m])"
| \<open>emit vs now (Message unknownStream) =
     (vs, [terminate, onClose_call (Error ''Terminated due "unknownStream" message'')])\<close>
| "emit vs now (Message unexpected) = (vs, [])"
| "emit vs now PingTimeoutElapsed =
     (if pingTimeout vs
      then (vs\<lparr>pingTimeout := False\<rparr>,
            [terminate, onClose_call (Error ''Terminated due to lack of heartbeat'')])
      else (vs, []))"

text \<open>
  The wiring of \<open>subscribeToRippleds\<close> (lines 384 to 389): the stream's
  \<open>onValidationReceived\<close> is the external callback itself, its
  \<open>onManifestReceived\<close> is the closure above. \<open>onClose\<close> only touches
  \<open>validationStreams\<close>, which is not part of the registry.
\<close>

fun wire :: "env \<Rightarrow> network \<Rightarrow> action \<Rightarrow> network \<times> emitted list" where
  "wire e st (onValidationReceived_call v) = (st, [OnValidationReceived v])"
| "wire e st (onManifestReceived_call m) = onManifestReceived e st m"
| "wire e st (onClose_call c) = (st, [])"
| "wire e st terminate = (st, [])"
| "wire e st (send s) = (st, [])"

fun wireAll :: "env \<Rightarrow> network \<Rightarrow> action list \<Rightarrow> network \<times> emitted list" where
  "wireAll e st [] = (st, [])"
| "wireAll e st (a # as) =
     (let (st1, out1) = wire e st a; (st2, out2) = wireAll e st1 as in (st2, out1 @ out2))"

text \<open>A socket event of one stream, through the stream's listeners and the wiring.\<close>

definition deliver ::
  "env \<Rightarrow> network \<Rightarrow> ValidationStream \<Rightarrow> int \<Rightarrow> ws_event \<Rightarrow>
   network \<times> ValidationStream \<times> emitted list" where
  "deliver e st vs now ev =
     (let (vs', acts) = emit vs now ev; (st', out) = wireAll e st acts in (st', vs', out))"

text \<open>How often a trace of socket events calls \<open>onClose\<close>.\<close>

fun is_onClose :: "action \<Rightarrow> bool" where
  "is_onClose (onClose_call c) = True"
| "is_onClose a = False"

fun emitAll :: "ValidationStream \<Rightarrow> int \<Rightarrow> ws_event list \<Rightarrow> action list" where
  "emitAll vs now [] = []"
| "emitAll vs now (ev # evs) = (let (vs', acts) = emit vs now ev in acts @ emitAll vs' now evs)"

section \<open>Runs of the registry\<close>

text \<open>
  The two things that reach the registry: the response of a roster request and a frame
  of a peer. A run applies them one after the other.
\<close>

datatype input = Roster env response | Frame env int frame

fun step :: "network \<Rightarrow> input \<Rightarrow> network \<times> emitted list" where
  "step st (Roster e r) = (let (st', out, err) = getUNL e st r in (st', out))"
| "step st (Frame e now f) =
     (let (st', vs', out) = deliver e st (new_ValidationStream True) now (Message f)
      in (st', out))"

fun run :: "network \<Rightarrow> input list \<Rightarrow> network" where
  "run st [] = st"
| "run st (i # is) = run (fst (step st i)) is"

section \<open>Vocabulary of the claims and example inputs\<close>

text \<open>
  The identities a registry tracks, and the identities a roster lists (the entries whose
  key the address codec accepts).
\<close>

definition tracked :: "network \<Rightarrow> string set" where
  "tracked st = fst ` set (validators st)"

definition listed :: "env \<Rightarrow> list_entry list \<Rightarrow> string set" where
  "listed e es = {k. \<exists>entry \<in> set es. hexToBase58 e (entry_validation_public_key entry) = Some k}"

text \<open>
  The vote path as sections 4.3 and 4.4 of the specification word it, for comparison with
  \<open>deliver\<close>: \<open>resolveVote\<close> is a lookup in the signing-key index, and
  \<open>onVote\<close> resolves the signing key, attaches the receive timestamp and forwards
  the vote together with the result of the resolution.
\<close>

definition spec_resolveVote :: "network \<Rightarrow> string \<Rightarrow> string option" where
  "spec_resolveVote st signingKey = manifestKeys st signingKey"

definition spec_onVote :: "network \<Rightarrow> int \<Rightarrow> ValidationMessage \<Rightarrow> string option \<times> ValidationMessage" where
  "spec_onVote st now v =
     (spec_resolveVote st (validation_public_key v), v\<lparr>timestamp := Some now\<rparr>)"

text \<open>
  Inputs for the scenarios of section 8 of the specification: an environment whose
  address codec rejects the key \<open>??\<close>, whose binary codec decodes two manifests,
  and whose Data API knows no domain; a roster built from pairs of key and manifest;
  the registry after the first scenario; a vote signed with \<open>k1\<close>.
\<close>

definition example_env :: env where
  "example_env =
     \<lparr>hexToBase58 = (\<lambda>h. if h = ''??'' then None else Some h),
      codec_decode =
        (\<lambda>b. if b = ''m1'' then Some \<lparr>SigningPubKey = ''k1'', manifest_Sequence = 5\<rparr>
             else if b = ''m2'' then Some \<lparr>SigningPubKey = ''k2'', manifest_Sequence = 7\<rparr>
             else None),
      data_api = (\<lambda>k. None)\<rparr>"

definition roster :: "int \<Rightarrow> (string \<times> string) list \<Rightarrow> response" where
  "roster version es =
     Blob \<lparr>vl_sequence = version,
           vl_validators =
             map (\<lambda>(k, m). \<lparr>entry_validation_public_key = k, entry_manifest = m\<rparr>) es\<rparr>"

definition registry_A :: network where
  "registry_A =
     \<lparr>lastValidatorListSequence = 1,
      validators = [(''A'', \<lparr>signing_key = ''k1'', Sequence = 5\<rparr>)],
      names = Map.empty, manifestKeys = [''k1'' \<mapsto> ''A'']\<rparr>"

definition example_vote :: ValidationMessage where
  "example_vote =
     \<lparr>amendments = None, base_fee = None, flags = 1, full = True, ledger_hash = ''LH'',
      ledger_index = ''100'', load_fee = None, reserve_base = None, reserve_inc = None,
      signature = ''S'', signing_time = 0, validation_public_key = ''k1'',
      timestamp = None\<rparr>"

section \<open>Lemmas about the embedding\<close>

subsection \<open>fetchName\<close>

lemma fetchName_fields:
  "lastValidatorListSequence (snd (fetchName e st k)) = lastValidatorListSequence st"
  "validators (snd (fetchName e st k)) = validators st"
  "manifestKeys (snd (fetchName e st k)) = manifestKeys st"
  by (simp_all add: fetchName_def split: option.splits)

subsection \<open>applyEntry\<close>

lemma applyEntry_Inr_cases:
  assumes "applyEntry e startup st del entry = Inr (st', del', evs)"
  obtains (stale) k mf v where
      "hexToBase58 e (entry_validation_public_key entry) = Some k"
      "codec_decode e (entry_manifest entry) = Some mf"
      "map_of (validators st) k = Some v" "manifest_Sequence mf \<le> Sequence v"
      "st' = st" "del' = remove_elem del k" "evs = []"
  | (applied) k mf sk n where
      "hexToBase58 e (entry_validation_public_key entry) = Some k"
      "codec_decode e (entry_manifest entry) = Some mf"
      "hexToBase58 e (SigningPubKey mf) = Some sk"
      "case map_of (validators st) k of None \<Rightarrow> True
       | Some v \<Rightarrow> Sequence v < manifest_Sequence mf"
      "validators st' =
         AList.update k \<lparr>signing_key = sk, Sequence = manifest_Sequence mf\<rparr> (validators st)"
      "manifestKeys st' = (manifestKeys st)(sk \<mapsto> k)"
      "lastValidatorListSequence st' = lastValidatorListSequence st"
      "del' = remove_elem del k"
      "evs = [OnUnlData
               \<lparr>isDuringStartup = startup,
                isNewValidator = (map_of (validators st) k = None),
                isNewManifest = True, validatorName = n,
                validation_public_key_base58 = k, unl_signing_key = sk,
                unl_Sequence = manifest_Sequence mf, isFromManifestsStream = None\<rparr>]"
proof -
  obtain k where k: "hexToBase58 e (entry_validation_public_key entry) = Some k"
    using assms by (cases "hexToBase58 e (entry_validation_public_key entry)")
      (simp_all add: applyEntry_def)
  obtain mf where mf: "codec_decode e (entry_manifest entry) = Some mf"
    using assms k by (cases "codec_decode e (entry_manifest entry)")
      (simp_all add: applyEntry_def)
  show thesis
  proof (cases "case map_of (validators st) k of None \<Rightarrow> True
       | Some v \<Rightarrow> Sequence v < manifest_Sequence mf")
    case False
    then obtain v where v: "map_of (validators st) k = Some v"
      "manifest_Sequence mf \<le> Sequence v"
      by (auto split: option.splits)
    from assms k mf False have "st' = st" "del' = remove_elem del k" "evs = []"
      by (simp_all add: applyEntry_def)
    with k mf v show thesis by (rule stale)
  next
    case True
    obtain sk where sk: "hexToBase58 e (SigningPubKey mf) = Some sk"
      using assms k mf True by (cases "hexToBase58 e (SigningPubKey mf)")
        (simp_all add: applyEntry_def)
    let ?st1 = "st\<lparr>validators :=
              AList.update k \<lparr>signing_key = sk, Sequence = manifest_Sequence mf\<rparr>
                (validators st)\<rparr>"
    obtain n st2 where f: "fetchName e ?st1 k = (n, st2)"
      by (cases "fetchName e ?st1 k")
    have "st' = st2\<lparr>manifestKeys := (manifestKeys st2)(sk \<mapsto> k)\<rparr> \<and>
      del' = remove_elem del k \<and>
      evs = [OnUnlData
               \<lparr>isDuringStartup = startup,
                isNewValidator = (map_of (validators st) k = None),
                isNewManifest = True, validatorName = n,
                validation_public_key_base58 = k, unl_signing_key = sk,
                unl_Sequence = manifest_Sequence mf, isFromManifestsStream = None\<rparr>]"
    proof (cases "map_of (validators st) k")
      case None
      with assms k mf sk True f show ?thesis
        by (simp add: applyEntry_def Let_def)
    next
      case (Some v)
      obtain a b where "v = \<lparr>signing_key = a, Sequence = b\<rparr>" by (cases v) simp
      with assms k mf sk True f Some show ?thesis
        by (simp add: applyEntry_def Let_def)
    qed
    moreover from f have "lastValidatorListSequence st2 = lastValidatorListSequence st"
      "validators st2 = validators ?st1" "manifestKeys st2 = manifestKeys st"
      using fetchName_fields[of e ?st1 k] by simp_all
    ultimately show thesis using k mf sk True by (intro applied[of k mf sk n]) simp_all
  qed
qed


lemma applyEntry_version:
  assumes "applyEntry e startup st del entry = Inr (st', del', evs)"
  shows "lastValidatorListSequence st' = lastValidatorListSequence st"
  using assms by (cases rule: applyEntry_Inr_cases) simp_all

lemma applyEntry_tracked:
  assumes "applyEntry e startup st del entry = Inr (st', del', evs)"
  shows "\<exists>k. hexToBase58 e (entry_validation_public_key entry) = Some k \<and>
    del' = remove_elem del k \<and> tracked st' = insert k (tracked st)"
  using assms
proof (cases rule: applyEntry_Inr_cases)
  case (stale k mf v)
  from stale(3) have "k \<in> tracked st"
    unfolding tracked_def by (metis domI dom_map_of_conv_image_fst)
  with stale show ?thesis by auto
next
  case (applied k mf sk n)
  then show ?thesis by (simp add: tracked_def dom_update)
qed

lemma applyEntry_distinct:
  assumes "applyEntry e startup st del entry = Inr (st', del', evs)"
    and "distinct (map fst (validators st))"
  shows "distinct (map fst (validators st'))"
  using assms(1)
  by (cases rule: applyEntry_Inr_cases) (simp_all add: assms(2) distinct_update)

lemma applyEntry_flag:
  assumes "applyEntry e startup st del entry = Inr (st', del', evs)"
    and "OnUnlData d \<in> set evs"
  shows "isDuringStartup d = startup"
  using assms by (cases rule: applyEntry_Inr_cases) auto

lemma applyEntry_seq_mono:
  assumes "applyEntry e startup st del entry = Inr (st', del', evs)"
    and "map_of (validators st) x = Some v"
  shows "\<exists>v'. map_of (validators st') x = Some v' \<and> Sequence v \<le> Sequence v'"
  using assms(1)
proof (cases rule: applyEntry_Inr_cases)
  case (stale k mf w)
  with assms(2) show ?thesis by simp
next
  case (applied k mf sk n)
  with assms(2) show ?thesis by (cases "x = k") (auto simp: update_conv)
qed

subsection \<open>deleteValidators\<close>

lemma map_of_deleteValidators:
  "map_of (deleteValidators ks vs) x = (if x \<in> set ks then None else map_of vs x)"
  by (induction ks vs rule: deleteValidators.induct) (auto simp: delete_conv)


subsection \<open>forEntries\<close>

lemma forEntries_version:
  "forEntries e s st del out es = (err, st', del', out') \<Longrightarrow>
   lastValidatorListSequence st' = lastValidatorListSequence st"
proof (induction es arbitrary: st del out)
  case Nil
  then show ?case by simp
next
  case (Cons entry es)
  show ?case
  proof (cases "applyEntry e s st del entry")
    case (Inl a)
    with Cons.prems show ?thesis by simp
  next
    case (Inr r)
    obtain st1 del1 evs where r: "r = (st1, del1, evs)" by (cases r)
    with Cons.prems Inr have "forEntries e s st1 del1 (out @ evs) es = (err, st', del', out')"
      by simp
    from Cons.IH[OF this] applyEntry_version[OF Inr[unfolded r]] show ?thesis by simp
  qed
qed

lemma forEntries_seq_mono:
  "forEntries e s st del out es = (err, st', del', out') \<Longrightarrow>
   map_of (validators st) x = Some v \<Longrightarrow>
   \<exists>v'. map_of (validators st') x = Some v' \<and> Sequence v \<le> Sequence v'"
proof (induction es arbitrary: st del out v)
  case Nil
  then show ?case by simp
next
  case (Cons entry es)
  show ?case
  proof (cases "applyEntry e s st del entry")
    case (Inl a)
    with Cons.prems show ?thesis by simp
  next
    case (Inr r)
    obtain st1 del1 evs where r: "r = (st1, del1, evs)" by (cases r)
    with Cons.prems Inr have run: "forEntries e s st1 del1 (out @ evs) es = (err, st', del', out')"
      by simp
    from applyEntry_seq_mono[OF Inr[unfolded r] Cons.prems(2)]
    obtain v1 where v1: "map_of (validators st1) x = Some v1" "Sequence v \<le> Sequence v1"
      by blast
    from Cons.IH[OF run v1(1)] v1(2) show ?thesis by force
  qed
qed

lemma forEntries_flag:
  "forEntries e s st del out es = (err, st', del', out') \<Longrightarrow>
   OnUnlData d \<in> set out' \<Longrightarrow> OnUnlData d \<in> set out \<or> isDuringStartup d = s"
proof (induction es arbitrary: st del out)
  case Nil
  then show ?case by simp
next
  case (Cons entry es)
  show ?case
  proof (cases "applyEntry e s st del entry")
    case (Inl a)
    with Cons.prems show ?thesis by simp
  next
    case (Inr r)
    obtain st1 del1 evs where r: "r = (st1, del1, evs)" by (cases r)
    with Cons.prems Inr have "forEntries e s st1 del1 (out @ evs) es = (err, st', del', out')"
      by simp
    from Cons.IH[OF this Cons.prems(2)] applyEntry_flag[OF Inr[unfolded r]]
    show ?thesis by auto
  qed
qed


lemma forEntries_distinct:
  "forEntries e s st del out es = (err, st', del', out') \<Longrightarrow>
   distinct (map fst (validators st)) \<Longrightarrow> distinct (map fst (validators st'))"
proof (induction es arbitrary: st del out)
  case Nil
  then show ?case by simp
next
  case (Cons entry es)
  show ?case
  proof (cases "applyEntry e s st del entry")
    case (Inl a)
    with Cons.prems show ?thesis by simp
  next
    case (Inr r)
    obtain st1 del1 evs where r: "r = (st1, del1, evs)" by (cases r)
    with Cons.prems Inr have "forEntries e s st1 del1 (out @ evs) es = (err, st', del', out')"
      by simp
    from Cons.IH[OF this applyEntry_distinct[OF Inr[unfolded r] Cons.prems(2)]]
    show ?thesis .
  qed
qed

lemma forEntries_throw:
  "forEntries e s st del out es1 = (None, st2, del2, out2) \<Longrightarrow>
   applyEntry e s st2 del2 bad = Inl err \<Longrightarrow>
   forEntries e s st del out (es1 @ bad # es2) = (Some err, st2, del2, out2)"
proof (induction es1 arbitrary: st del out)
  case Nil
  then show ?case by simp
next
  case (Cons entry es)
  show ?case
  proof (cases "applyEntry e s st del entry")
    case (Inl a)
    with Cons.prems show ?thesis by simp
  next
    case (Inr r)
    obtain st1 del1 evs where r: "r = (st1, del1, evs)" by (cases r)
    with Cons.prems Inr have "forEntries e s st1 del1 (out @ evs) es = (None, st2, del2, out2)"
      by simp
    from Cons.IH[OF this Cons.prems(2)] Inr r show ?thesis by simp
  qed
qed


subsection \<open>getUNL, onManifestReceived, step\<close>

lemma onManifestReceived_cases:
  obtains (ignored) "onManifestReceived e st m = (st, [])"
    "case map_of (validators st) (master_key m) of None \<Rightarrow> True
     | Some v \<Rightarrow> seq m \<le> Sequence v"
  | (applied) v st' n where
    "map_of (validators st) (master_key m) = Some v" "Sequence v < seq m"
    "onManifestReceived e st m =
       (st', [OnUnlData
               \<lparr>isDuringStartup = False, isNewValidator = False, isNewManifest = True,
                validatorName = n, validation_public_key_base58 = master_key m,
                unl_signing_key = mm_signing_key m, unl_Sequence = seq m,
                isFromManifestsStream = Some True\<rparr>])"
    "validators st' =
       AList.update (master_key m) \<lparr>signing_key = mm_signing_key m, Sequence = seq m\<rparr>
         (validators st)"
    "manifestKeys st' =
       ((manifestKeys st)(signing_key v := None))(mm_signing_key m \<mapsto> master_key m)"
    "lastValidatorListSequence st' = lastValidatorListSequence st"
proof (cases "map_of (validators st) (master_key m)")
  case None
  then show thesis by (intro ignored) (simp_all add: onManifestReceived_def)
next
  case (Some v)
  show thesis
  proof (cases "Sequence v < seq m")
    case False
    with Some show thesis by (intro ignored) (simp_all add: onManifestReceived_def)
  next
    case True
    let ?st3 = "st\<lparr>validators := AList.update (master_key m)
        \<lparr>signing_key = mm_signing_key m, Sequence = seq m\<rparr> (validators st),
      manifestKeys :=
        ((manifestKeys st)(signing_key v := None))(mm_signing_key m \<mapsto> master_key m)\<rparr>"
    obtain n st4 where f: "fetchName e ?st3 (master_key m) = (n, st4)"
      by (cases "fetchName e ?st3 (master_key m)")
    obtain a b where v: "v = \<lparr>signing_key = a, Sequence = b\<rparr>" by (cases v) simp
    have "onManifestReceived e st m =
       (st4, [OnUnlData
               \<lparr>isDuringStartup = False, isNewValidator = False, isNewManifest = True,
                validatorName = n, validation_public_key_base58 = master_key m,
                unl_signing_key = mm_signing_key m, unl_Sequence = seq m,
                isFromManifestsStream = Some True\<rparr>])"
      using Some True f v by (simp add: onManifestReceived_def Let_def)
    moreover have "validators st4 = validators ?st3" "manifestKeys st4 = manifestKeys ?st3"
      "lastValidatorListSequence st4 = lastValidatorListSequence ?st3"
      using f fetchName_fields[of e ?st3 "master_key m"] by simp_all
    ultimately show thesis using Some True by (intro applied[of v st4 n]) simp_all
  qed
qed


lemma getUNL_Blob_cases:
  obtains (stale) "vl_sequence vl \<le> lastValidatorListSequence st"
    "getUNL e st (Blob vl) = (st, [], None)"
  | (thrown) err st2 del out where
    "lastValidatorListSequence st < vl_sequence vl"
    "forEntries e (validators st = [])
       (st\<lparr>lastValidatorListSequence := vl_sequence vl\<rparr>)
       (map fst (validators st)) [] (vl_validators vl) = (Some err, st2, del, out)"
    "getUNL e st (Blob vl) = (st2, out, Some err)"
  | (completed) st2 del out where
    "lastValidatorListSequence st < vl_sequence vl"
    "forEntries e (validators st = [])
       (st\<lparr>lastValidatorListSequence := vl_sequence vl\<rparr>)
       (map fst (validators st)) [] (vl_validators vl) = (None, st2, del, out)"
    "getUNL e st (Blob vl) =
       (st2\<lparr>validators := deleteValidators del (validators st2)\<rparr>, out, None)"
proof (cases "vl_sequence vl \<le> lastValidatorListSequence st")
  case True
  then show thesis by (intro stale) (simp_all add: getUNL_def)
next
  case False
  let ?run = "forEntries e (validators st = [])
       (st\<lparr>lastValidatorListSequence := vl_sequence vl\<rparr>)
       (map fst (validators st)) [] (vl_validators vl)"
  obtain r st2 del out where run: "?run = (r, st2, del, out)" by (cases ?run)
  show thesis
  proof (cases r)
    case None
    with run False show thesis by (intro completed[of st2 del out]) (simp_all add: getUNL_def)
  next
    case (Some err)
    with run False show thesis by (intro thrown[of err st2 del out]) (simp_all add: getUNL_def)
  qed
qed

lemma getUNL_Blob_version_mono:
  "lastValidatorListSequence st \<le> lastValidatorListSequence (fst (getUNL e st (Blob vl)))"
proof (cases rule: getUNL_Blob_cases[of vl st e])
  case stale
  then show ?thesis by simp
next
  case (thrown err st2 del out)
  from forEntries_version[OF thrown(2)] thrown(1,3) show ?thesis by simp
next
  case (completed st2 del out)
  from forEntries_version[OF completed(2)] completed(1,3) show ?thesis by simp
qed

lemma getUNL_version_mono:
  "lastValidatorListSequence st \<le> lastValidatorListSequence (fst (getUNL e st r))"
  by (cases r) (simp_all add: getUNL_Blob_version_mono, simp_all add: getUNL_def)

lemma deliver_message:
  "deliver e st vs now (Message (validationReceived v)) =
     (st, vs, [OnValidationReceived (v\<lparr>timestamp := Some now\<rparr>)])"
  "deliver e st vs now (Message (manifestReceived m)) =
     (fst (onManifestReceived e st m), vs, snd (onManifestReceived e st m))"
  "deliver e st vs now (Message unknownStream) = (st, vs, [])"
  "deliver e st vs now (Message unexpected) = (st, vs, [])"
  by (simp_all add: deliver_def split: prod.splits)

lemma onManifestReceived_version:
  "lastValidatorListSequence (fst (onManifestReceived e st m)) = lastValidatorListSequence st"
  by (cases rule: onManifestReceived_cases[of e st m]) simp_all

lemma step_version_mono:
  "lastValidatorListSequence st \<le> lastValidatorListSequence (fst (step st i))"
proof (cases i)
  case (Roster e r)
  with getUNL_version_mono[of st e r] show ?thesis by (simp add: split_beta)
next
  case (Frame e now f)
  then show ?thesis
    by (cases f) (simp_all add: deliver_message onManifestReceived_version)
qed

lemma run_version_mono:
  "lastValidatorListSequence st \<le> lastValidatorListSequence (run st inputs)"
proof (induction inputs arbitrary: st)
  case Nil
  then show ?case by simp
next
  case (Cons i inputs)
  from step_version_mono[of st i] Cons.IH[of "fst (step st i)"] show ?case by simp
qed

subsection \<open>Sequences, flags and keys across a step\<close>

lemma forEntries_tracked:
  "forEntries e s st del out es = (None, st', del', out') \<Longrightarrow>
   tracked st' = tracked st \<union> listed e es"
proof (induction es arbitrary: st del out)
  case Nil
  then show ?case by (simp add: listed_def)
next
  case (Cons entry es)
  show ?case
  proof (cases "applyEntry e s st del entry")
    case (Inl a)
    with Cons.prems show ?thesis by simp
  next
    case (Inr r)
    obtain st1 del1 evs where r: "r = (st1, del1, evs)" by (cases r)
    with Cons.prems Inr have run: "forEntries e s st1 del1 (out @ evs) es = (None, st', del', out')"
      by simp
    from applyEntry_tracked[OF Inr[unfolded r]] obtain k where
      k: "hexToBase58 e (entry_validation_public_key entry) = Some k"
        "tracked st1 = insert k (tracked st)"
      by blast
    have l: "listed e (entry # es) = insert k (listed e es)"
      using k(1) by (auto simp: listed_def)
    from Cons.IH[OF run] k(2) l show ?thesis by auto
  qed
qed

lemma getUNL_seq_mono:
  assumes "map_of (validators st) k = Some v"
    and "map_of (validators (fst (getUNL e st r))) k = Some v'"
  shows "Sequence v \<le> Sequence v'"
proof (cases r)
  case RequestRejected
  with assms show ?thesis by (simp add: getUNL_def)
next
  case BlobMalformed
  with assms show ?thesis by (simp add: getUNL_def)
next
  case (Blob vl)
  have st1: "validators (st\<lparr>lastValidatorListSequence := vl_sequence vl\<rparr>) = validators st"
    by simp
  show ?thesis
  proof (cases rule: getUNL_Blob_cases[of vl st e])
    case stale
    with assms Blob show ?thesis by simp
  next
    case (thrown err st2 del out)
    from forEntries_seq_mono[OF thrown(2)] assms(1) st1
    obtain w where "map_of (validators st2) k = Some w" "Sequence v \<le> Sequence w" by metis
    with assms(2) Blob thrown(3) show ?thesis by simp
  next
    case (completed st2 del out)
    from forEntries_seq_mono[OF completed(2)] assms(1) st1
    obtain w where "map_of (validators st2) k = Some w" "Sequence v \<le> Sequence w" by metis
    with assms(2) Blob completed(3) show ?thesis
      by (simp add: map_of_deleteValidators split: if_splits)
  qed
qed

lemma onManifestReceived_seq_mono:
  assumes "map_of (validators st) k = Some v"
    and "map_of (validators (fst (onManifestReceived e st m))) k = Some v'"
  shows "Sequence v \<le> Sequence v'"
proof (cases rule: onManifestReceived_cases[of e st m])
  case ignored
  with assms show ?thesis by simp
next
  case (applied w st' n)
  with assms show ?thesis by (cases "k = master_key m") (auto simp: update_conv')
qed

lemma step_seq_mono:
  assumes "map_of (validators st) k = Some v"
    and "map_of (validators (fst (step st i))) k = Some v'"
  shows "Sequence v \<le> Sequence v'"
proof (cases i)
  case (Roster e r)
  with assms getUNL_seq_mono[of st k v e r v'] show ?thesis by (simp add: split_beta)
next
  case (Frame e now f)
  with assms onManifestReceived_seq_mono[of st k v e _ v'] show ?thesis
    by (cases f) (simp_all add: deliver_message)
qed

lemma getUNL_flag:
  assumes "OnUnlData d \<in> set (fst (snd (getUNL e st r)))"
  shows "isDuringStartup d = (validators st = [])"
proof (cases r)
  case RequestRejected
  with assms show ?thesis by (simp add: getUNL_def)
next
  case BlobMalformed
  with assms show ?thesis by (simp add: getUNL_def)
next
  case (Blob vl)
  show ?thesis
  proof (cases rule: getUNL_Blob_cases[of vl st e])
    case stale
    with assms Blob show ?thesis by simp
  next
    case (thrown err st2 del out)
    with assms Blob forEntries_flag[OF thrown(2), of d] show ?thesis by simp
  next
    case (completed st2 del out)
    with assms Blob forEntries_flag[OF completed(2), of d] show ?thesis by simp
  qed
qed

lemma deleteValidators_distinct:
  "distinct (map fst vs) \<Longrightarrow> distinct (map fst (deleteValidators ks vs))"
  by (induction ks vs rule: deleteValidators.induct) (simp_all add: distinct_delete)

lemma getUNL_distinct:
  assumes "distinct (map fst (validators st))"
  shows "distinct (map fst (validators (fst (getUNL e st r))))"
proof (cases r)
  case RequestRejected
  with assms show ?thesis by (simp add: getUNL_def)
next
  case BlobMalformed
  with assms show ?thesis by (simp add: getUNL_def)
next
  case (Blob vl)
  have d: "distinct (map fst (validators (st\<lparr>lastValidatorListSequence := vl_sequence vl\<rparr>)))"
    using assms by simp
  show ?thesis
  proof (cases rule: getUNL_Blob_cases[of vl st e])
    case stale
    with assms Blob show ?thesis by simp
  next
    case (thrown err st2 del out)
    with Blob forEntries_distinct[OF thrown(2) d] show ?thesis by simp
  next
    case (completed st2 del out)
    with Blob forEntries_distinct[OF completed(2) d] show ?thesis
      by (simp add: deleteValidators_distinct)
  qed
qed

lemma onManifestReceived_distinct:
  assumes "distinct (map fst (validators st))"
  shows "distinct (map fst (validators (fst (onManifestReceived e st m))))"
  using assms
  by (cases rule: onManifestReceived_cases[of e st m]) (simp_all add: distinct_update)

lemma step_distinct:
  assumes "distinct (map fst (validators st))"
  shows "distinct (map fst (validators (fst (step st i))))"
proof (cases i)
  case (Roster e r)
  with getUNL_distinct[OF assms, of e r] show ?thesis by (simp add: split_beta)
next
  case (Frame e now f)
  with assms onManifestReceived_distinct[OF assms] show ?thesis
    by (cases f) (simp_all add: deliver_message)
qed

lemma run_distinct:
  "distinct (map fst (validators st)) \<Longrightarrow> distinct (map fst (validators (run st inputs)))"
  by (induction inputs arbitrary: st) (simp_all add: step_distinct)

text \<open>
  Every registry a run reaches from a new \<open>Network\<close> has one entry per identity,
  as a JavaScript object has one property per key.
\<close>

lemma reachable_distinct: "distinct (map fst (validators (run new_Network inputs)))"
  by (rule run_distinct) (simp add: new_Network_def)

subsection \<open>The scenarios of the specification on the code\<close>

text \<open>
  The first scenario of section 8: the roster of version 1 with the entry of \<open>A\<close>,
  applied to a new \<open>Network\<close>, gives \<open>registry_A\<close>.
\<close>

lemma registry_A_reached:
  "run new_Network [Roster example_env (roster 1 [(''A'', ''m1'')])] = registry_A"
  by (simp add: registry_A_def example_env_def roster_def new_Network_def getUNL_def
      applyEntry_def fetchName_def remove_elem_def Let_def)

text \<open>
  The stream path of a rotation: the old signing key leaves the index before the new one
  enters it (lines 338 to 349).
\<close>

lemma stream_rotation_swaps_index:
  assumes "map_of (validators st) (master_key m) = Some v" "Sequence v < seq m"
  shows "manifestKeys (fst (onManifestReceived e st m)) (mm_signing_key m) = Some (master_key m)"
    and "signing_key v \<noteq> mm_signing_key m \<Longrightarrow>
      manifestKeys (fst (onManifestReceived e st m)) (signing_key v) = None"
    and "map_of (validators (fst (onManifestReceived e st m))) (master_key m) =
      Some \<lparr>signing_key = mm_signing_key m, Sequence = seq m\<rparr>"
  using assms
  by (cases rule: onManifestReceived_cases[of e st m]; simp add: update_conv')+

text \<open>
  The other two ways a stream closes. After the heartbeat timer has terminated the socket,
  the socket's \<open>close\<close> event still runs both \<open>close\<close> listeners; with
  \<open>useHeartbeat\<close> off, a close frame runs the one listener that is left.
\<close>

lemma heartbeat_timeout_fires_onClose_thrice:
  "filter is_onClose
     (emitAll (new_ValidationStream True) 0 [Open, PingTimeoutElapsed, Close 1006 '''']) =
     [onClose_call (Error ''Terminated due to lack of heartbeat''),
      onClose_call (CodeReason 1006 ''''), onClose_call (CodeReason 1006 '''')]"
  by (simp add: new_ValidationStream_def)

lemma close_frame_without_heartbeat_fires_onClose_once:
  "filter is_onClose (emitAll (new_ValidationStream False) now (Open # Close code reason # evs)) =
     onClose_call (CodeReason code reason) # filter is_onClose (emitAll (new_ValidationStream False) now evs)"
  by (simp add: new_ValidationStream_def)

section \<open>The claims\<close>

text \<open>
  Claim C1. The claim: no two tracked identities share a signing key, and after a
  rotation by the roster path or by the stream path the old signing key resolves to
  not-found and the new one to the identity. The stream path does so
  (\<open>stream_rotation_swaps_index\<close>); the roster path (lines 464 to 487) installs the
  new key and never deletes the old one. On the second and third scenario of section 8,
  the roster of version 2 that rotates \<open>A\<close> from \<open>k1\<close> to \<open>k2\<close>,
  the code leaves \<open>k1\<close> resolving to \<open>A\<close>.
\<close>

theorem roster_rotation_keeps_old_signing_key:
  "validators (fst (getUNL example_env registry_A (roster 2 [(''A'', ''m2'')]))) =
     [(''A'', \<lparr>signing_key = ''k2'', Sequence = 7\<rparr>)] \<and>
   manifestKeys (fst (getUNL example_env registry_A (roster 2 [(''A'', ''m2'')]))) ''k2'' =
     Some ''A'' \<and>
   manifestKeys (fst (getUNL example_env registry_A (roster 2 [(''A'', ''m2'')]))) ''k1'' =
     Some ''A''"
  by (simp add: registry_A_def example_env_def roster_def getUNL_def
      applyEntry_def fetchName_def remove_elem_def Let_def)




text \<open>
  Claim C3, amended. A validation vote delivered by a peer gets the receive timestamp and
  is handed to the external callback, once, with its raw signing key in
  \<open>validation_public_key\<close>, whatever the registry holds: the stream's
  \<open>onValidationReceived\<close> is the external callback itself (line 386), and the
  signing-key index is not consulted.
\<close>

theorem vote_forwarded_with_raw_signing_key:
  "snd (snd (deliver e st vs now (Message (validationReceived v)))) =
     [OnValidationReceived (v\<lparr>timestamp := Some now\<rparr>)] \<and>
   validation_public_key (v\<lparr>timestamp := Some now\<rparr>) = validation_public_key v \<and>
   timestamp (v\<lparr>timestamp := Some now\<rparr>) = Some now"
  by (simp add: deliver_message)

text \<open>
  Claim C3 as stated has the vote passed through the resolution of its signing key. For a
  vote signed with \<open>k1\<close> the resolution of the specification tells the registry
  that maps \<open>k1\<close> to \<open>A\<close> from the one with an empty index; what the code
  forwards is the same in both, and carries \<open>k1\<close>.
\<close>

theorem vote_resolution_counterexample:
  "fst (spec_onVote registry_A 42 example_vote) = Some ''A'' \<and>
   fst (spec_onVote (registry_A\<lparr>manifestKeys := Map.empty\<rparr>) 42 example_vote) = None \<and>
   snd (snd (deliver example_env registry_A (new_ValidationStream True) 42
     (Message (validationReceived example_vote)))) =
     [OnValidationReceived (example_vote\<lparr>timestamp := Some 42\<rparr>)] \<and>
   snd (snd (deliver example_env (registry_A\<lparr>manifestKeys := Map.empty\<rparr>)
     (new_ValidationStream True) 42 (Message (validationReceived example_vote)))) =
     [OnValidationReceived (example_vote\<lparr>timestamp := Some 42\<rparr>)] \<and>
   validation_public_key (example_vote\<lparr>timestamp := Some 42\<rparr>) = ''k1''"
  by (simp add: spec_onVote_def spec_resolveVote_def registry_A_def example_vote_def
      deliver_def)

text \<open>
  Claim C4, amended. A request that is rejected and a blob that does not parse leave the
  registry as it was and invoke no callback. An entry that fails to decode, in a roster
  whose version passes the check, ends \<open>getUNL\<close> at that entry: the new version is
  already stored, the entries before it stay applied and their callbacks invoked, and no
  tracked identity is removed.
\<close>

theorem roster_failure_keeps_earlier_entries:
  "getUNL e st RequestRejected = (st, [], Some RequestFailed) \<and>
   getUNL e st BlobMalformed = (st, [], Some BlobParseError) \<and>
   (lastValidatorListSequence st < vl_sequence vl \<and>
    vl_validators vl = es1 @ bad # es2 \<and>
    forEntries e (validators st = []) (st\<lparr>lastValidatorListSequence := vl_sequence vl\<rparr>)
      (map fst (validators st)) [] es1 = (None, st2, del2, out2) \<and>
    applyEntry e (validators st = []) st2 del2 bad = Inl err
    \<longrightarrow> getUNL e st (Blob vl) = (st2, out2, Some err) \<and>
        lastValidatorListSequence st2 = vl_sequence vl \<and>
        tracked st2 = tracked st \<union> listed e es1)"
proof (intro conjI impI)
  show "getUNL e st RequestRejected = (st, [], Some RequestFailed)"
    by (simp add: getUNL_def)
  show "getUNL e st BlobMalformed = (st, [], Some BlobParseError)"
    by (simp add: getUNL_def)
next
  assume a: "lastValidatorListSequence st < vl_sequence vl \<and>
    vl_validators vl = es1 @ bad # es2 \<and>
    forEntries e (validators st = []) (st\<lparr>lastValidatorListSequence := vl_sequence vl\<rparr>)
      (map fst (validators st)) [] es1 = (None, st2, del2, out2) \<and>
    applyEntry e (validators st = []) st2 del2 bad = Inl err"
  then have run: "forEntries e (validators st = [])
      (st\<lparr>lastValidatorListSequence := vl_sequence vl\<rparr>)
      (map fst (validators st)) [] es1 = (None, st2, del2, out2)"
    and bad: "applyEntry e (validators st = []) st2 del2 bad = Inl err" by simp_all
  from forEntries_throw[OF run bad, of es2] a
  show "getUNL e st (Blob vl) = (st2, out2, Some err)"
    by (simp add: getUNL_def)
  from forEntries_version[OF run]
  show "lastValidatorListSequence st2 = vl_sequence vl" by simp
  from forEntries_tracked[OF run]
  show "tracked st2 = tracked st \<union> listed e es1" by (simp add: tracked_def)
qed

text \<open>
  The theorem at a new \<open>Network\<close> and a roster of version 1 whose second entry
  carries a manifest the codec rejects.
\<close>

theorem roster_failure_keeps_earlier_entries_witness:
  "lastValidatorListSequence new_Network <
     vl_sequence \<lparr>vl_sequence = 1, vl_validators =
       [\<lparr>entry_validation_public_key = ''A'', entry_manifest = ''m1''\<rparr>,
        \<lparr>entry_validation_public_key = ''B'', entry_manifest = ''m9''\<rparr>]\<rparr> \<and>
   forEntries example_env (validators new_Network = [])
     (new_Network\<lparr>lastValidatorListSequence := 1\<rparr>) (map fst (validators new_Network)) []
     [\<lparr>entry_validation_public_key = ''A'', entry_manifest = ''m1''\<rparr>] =
     (None, registry_A, [],
      [OnUnlData
         \<lparr>isDuringStartup = True, isNewValidator = True, isNewManifest = True,
          validatorName = ''A'', validation_public_key_base58 = ''A'',
          unl_signing_key = ''k1'', unl_Sequence = 5, isFromManifestsStream = None\<rparr>]) \<and>
   applyEntry example_env (validators new_Network = []) registry_A []
     \<lparr>entry_validation_public_key = ''B'', entry_manifest = ''m9''\<rparr> = Inl ManifestDecodeError \<and>
   getUNL example_env new_Network
     (Blob \<lparr>vl_sequence = 1, vl_validators =
       [\<lparr>entry_validation_public_key = ''A'', entry_manifest = ''m1''\<rparr>,
        \<lparr>entry_validation_public_key = ''B'', entry_manifest = ''m9''\<rparr>]\<rparr>) =
     (registry_A,
      [OnUnlData
         \<lparr>isDuringStartup = True, isNewValidator = True, isNewManifest = True,
          validatorName = ''A'', validation_public_key_base58 = ''A'',
          unl_signing_key = ''k1'', unl_Sequence = 5, isFromManifestsStream = None\<rparr>],
      Some ManifestDecodeError) \<and>
   lastValidatorListSequence registry_A = 1 \<and>
   tracked registry_A = tracked new_Network \<union>
     listed example_env [\<lparr>entry_validation_public_key = ''A'', entry_manifest = ''m1''\<rparr>]"
  using roster_failure_keeps_earlier_entries[where e = example_env and st = new_Network
      and vl = "\<lparr>vl_sequence = 1, vl_validators =
       [\<lparr>entry_validation_public_key = ''A'', entry_manifest = ''m1''\<rparr>,
        \<lparr>entry_validation_public_key = ''B'', entry_manifest = ''m9''\<rparr>]\<rparr>"
      and ?es1.0 = "[\<lparr>entry_validation_public_key = ''A'', entry_manifest = ''m1''\<rparr>]"
      and bad = "\<lparr>entry_validation_public_key = ''B'', entry_manifest = ''m9''\<rparr>"
      and ?es2.0 = "[]" and ?st2.0 = registry_A and ?del2.0 = "[]"
      and ?out2.0 = "[OnUnlData
         \<lparr>isDuringStartup = True, isNewValidator = True, isNewManifest = True,
          validatorName = ''A'', validation_public_key_base58 = ''A'',
          unl_signing_key = ''k1'', unl_Sequence = 5, isFromManifestsStream = None\<rparr>]"
      and err = ManifestDecodeError]
  by (simp add: registry_A_def new_Network_def example_env_def applyEntry_def
      fetchName_def remove_elem_def Let_def)

text \<open>
  Claim C4 as stated fails there: the fetch ends with an exception, and the registry is
  not the one before the fetch: \<open>A\<close> is tracked, its signing key is indexed and the
  stored version is 1.
\<close>

theorem roster_failure_counterexample:
  "getUNL example_env new_Network (roster 1 [(''A'', ''m1''), (''B'', ''m9'')]) =
     (registry_A,
      [OnUnlData
         \<lparr>isDuringStartup = True, isNewValidator = True, isNewManifest = True,
          validatorName = ''A'', validation_public_key_base58 = ''A'',
          unl_signing_key = ''k1'', unl_Sequence = 5, isFromManifestsStream = None\<rparr>],
      Some ManifestDecodeError) \<and>
   validators registry_A \<noteq> validators new_Network \<and>
   lastValidatorListSequence registry_A \<noteq> lastValidatorListSequence new_Network \<and>
   manifestKeys registry_A ''k1'' \<noteq> manifestKeys new_Network ''k1''"
  by (simp add: registry_A_def new_Network_def example_env_def roster_def getUNL_def
      applyEntry_def fetchName_def remove_elem_def Let_def)

text \<open>
  Claim C5. The claim: \<open>onClose\<close> fires exactly once per connection. With
  \<open>useHeartbeat\<close> on, which is the default and what \<open>Network\<close> uses, the
  constructor registers two \<open>close\<close> listeners (lines 143 and 157), and each calls
  \<open>onClose\<close>: a stream that opens and then receives a normal close frame calls it
  twice.
\<close>

theorem close_frame_fires_onClose_twice:
  "filter is_onClose (emitAll (new_ValidationStream True) 0 [Open, Close 1000 '''']) =
     [onClose_call (CodeReason 1000 ''''), onClose_call (CodeReason 1000 '''')]"
  by (simp add: new_ValidationStream_def)

text \<open>
  Claim C6. Across every sequence of roster responses and peer frames the stored roster
  version \<open>lastValidatorListSequence\<close> never decreases, and a validator list whose
  sequence is not greater than the stored one is a complete no-op: \<open>getUNL\<close> returns
  the registry it was given (validators, signing-key index, names, version), invokes no
  callback and ends without an exception.
\<close>

theorem roster_version_monotone:
  "lastValidatorListSequence st \<le> lastValidatorListSequence (run st inputs) \<and>
   (vl_sequence vl \<le> lastValidatorListSequence st \<longrightarrow>
      getUNL e st (Blob vl) = (st, [], None))"
  by (simp add: run_version_mono getUNL_def)

text \<open>
  The theorem at \<open>registry_A\<close>, whose stored version is 1: a roster of version 1 is
  a no-op, and a run that applies a roster of version 2 does not lower the version.
\<close>

theorem roster_version_monotone_witness:
  "vl_sequence \<lparr>vl_sequence = 1, vl_validators = []\<rparr> \<le> lastValidatorListSequence registry_A \<and>
   getUNL example_env registry_A (Blob \<lparr>vl_sequence = 1, vl_validators = []\<rparr>) = (registry_A, [], None) \<and>
   lastValidatorListSequence registry_A \<le>
     lastValidatorListSequence (run registry_A [Roster example_env (roster 2 [(''A'', ''m2'')])])"
  using roster_version_monotone[of registry_A "[Roster example_env (roster 2 [(''A'', ''m2'')])]"
    "\<lparr>vl_sequence = 1, vl_validators = []\<rparr>" example_env]
  by (simp add: registry_A_def)

text \<open>
  Claim C7. The sequence stored for an identity never decreases from one step to the next
  in which the identity is tracked, whether the step is a roster response or a peer frame.
  A stream manifest whose sequence is not greater than the stored one returns the registry
  unchanged and invokes no callback; a roster entry whose sequence is not greater than the
  stored one leaves the registry unchanged and invokes no callback (it only takes the
  identity off the local list of validators to delete).
\<close>

theorem manifest_sequence_monotone:
  "(map_of (validators st) k = Some v \<and> map_of (validators (fst (step st i))) k = Some v'
      \<longrightarrow> Sequence v \<le> Sequence v') \<and>
   (map_of (validators st) (master_key m) = Some v \<and> seq m \<le> Sequence v
      \<longrightarrow> onManifestReceived e st m = (st, [])) \<and>
   (hexToBase58 e (entry_validation_public_key entry) = Some k \<and>
    codec_decode e (entry_manifest entry) = Some mf \<and>
    map_of (validators st) k = Some v \<and> manifest_Sequence mf \<le> Sequence v
      \<longrightarrow> applyEntry e startup st del entry = Inr (st, remove_elem del k, []))"
proof (intro conjI impI)
  assume "map_of (validators st) k = Some v \<and> map_of (validators (fst (step st i))) k = Some v'"
  then show "Sequence v \<le> Sequence v'" using step_seq_mono by blast
next
  assume "map_of (validators st) (master_key m) = Some v \<and> seq m \<le> Sequence v"
  then show "onManifestReceived e st m = (st, [])" by (simp add: onManifestReceived_def)
next
  assume "hexToBase58 e (entry_validation_public_key entry) = Some k \<and>
    codec_decode e (entry_manifest entry) = Some mf \<and>
    map_of (validators st) k = Some v \<and> manifest_Sequence mf \<le> Sequence v"
  then show "applyEntry e startup st del entry = Inr (st, remove_elem del k, [])"
    by (simp add: applyEntry_def)
qed

text \<open>
  The theorem at \<open>registry_A\<close>, where \<open>A\<close> has sequence 5: a roster that
  raises it to 7, a stream manifest of sequence 5 and a roster entry of sequence 5.
\<close>

theorem manifest_sequence_monotone_witness:
  "map_of (validators registry_A) ''A'' = Some \<lparr>signing_key = ''k1'', Sequence = 5\<rparr> \<and>
   map_of (validators (fst (step registry_A (Roster example_env (roster 2 [(''A'', ''m2'')])))))
     ''A'' = Some \<lparr>signing_key = ''k2'', Sequence = 7\<rparr> \<and>
   Sequence \<lparr>signing_key = ''k1'', Sequence = 5\<rparr> \<le> Sequence \<lparr>signing_key = ''k2'', Sequence = 7\<rparr> \<and>
   seq \<lparr>master_key = ''A'', mm_signing_key = ''k3'', seq = 5\<rparr> \<le>
     Sequence \<lparr>signing_key = ''k1'', Sequence = 5\<rparr> \<and>
   onManifestReceived example_env registry_A
     \<lparr>master_key = ''A'', mm_signing_key = ''k3'', seq = 5\<rparr> = (registry_A, []) \<and>
   hexToBase58 example_env
     (entry_validation_public_key \<lparr>entry_validation_public_key = ''A'', entry_manifest = ''m1''\<rparr>) =
     Some ''A'' \<and>
   codec_decode example_env
     (entry_manifest \<lparr>entry_validation_public_key = ''A'', entry_manifest = ''m1''\<rparr>) =
     Some \<lparr>SigningPubKey = ''k1'', manifest_Sequence = 5\<rparr> \<and>
   applyEntry example_env False registry_A [''A'']
     \<lparr>entry_validation_public_key = ''A'', entry_manifest = ''m1''\<rparr> =
     Inr (registry_A, remove_elem [''A''] ''A'', [])"
  using manifest_sequence_monotone[where st = registry_A and k = "''A''"
      and v = "\<lparr>signing_key = ''k1'', Sequence = 5\<rparr>"
      and i = "Roster example_env (roster 2 [(''A'', ''m2'')])"
      and v' = "\<lparr>signing_key = ''k2'', Sequence = 7\<rparr>"
      and m = "\<lparr>master_key = ''A'', mm_signing_key = ''k3'', seq = 5\<rparr>"
      and e = example_env
      and entry = "\<lparr>entry_validation_public_key = ''A'', entry_manifest = ''m1''\<rparr>"
      and mf = "\<lparr>SigningPubKey = ''k1'', manifest_Sequence = 5\<rparr>"
      and startup = False and del = "[''A'']"]
  by (simp add: registry_A_def example_env_def roster_def getUNL_def applyEntry_def
      fetchName_def remove_elem_def Let_def)

text \<open>
  Claim C8. A stream manifest for an identity the registry does not track is a no-op,
  whatever its sequence: \<open>onManifestReceived\<close> returns the registry unchanged and
  invokes no callback, and so does the delivery of the frame through a stream.
\<close>

theorem stream_manifest_unknown_identity:
  "master_key m \<notin> tracked st \<longrightarrow>
     onManifestReceived e st m = (st, []) \<and>
     deliver e st vs now (Message (manifestReceived m)) = (st, vs, [])"
proof
  assume "master_key m \<notin> tracked st"
  then have "map_of (validators st) (master_key m) = None"
    by (simp add: tracked_def map_of_eq_None_iff)
  then have "onManifestReceived e st m = (st, [])"
    by (simp add: onManifestReceived_def)
  then show "onManifestReceived e st m = (st, []) \<and>
     deliver e st vs now (Message (manifestReceived m)) = (st, vs, [])"
    by (simp add: deliver_message)
qed

text \<open>
  The theorem at \<open>registry_A\<close> and a manifest of sequence 9 for the untracked
  identity \<open>B\<close>.
\<close>

theorem stream_manifest_unknown_identity_witness:
  "master_key \<lparr>master_key = ''B'', mm_signing_key = ''k3'', seq = 9\<rparr> \<notin> tracked registry_A \<and>
   onManifestReceived example_env registry_A
     \<lparr>master_key = ''B'', mm_signing_key = ''k3'', seq = 9\<rparr> = (registry_A, []) \<and>
   deliver example_env registry_A (new_ValidationStream True) 0
     (Message (manifestReceived \<lparr>master_key = ''B'', mm_signing_key = ''k3'', seq = 9\<rparr>)) =
     (registry_A, new_ValidationStream True, [])"
  using stream_manifest_unknown_identity[of "\<lparr>master_key = ''B'', mm_signing_key = ''k3'', seq = 9\<rparr>"
    registry_A example_env "new_ValidationStream True" 0]
  by (simp add: tracked_def registry_A_def)

text \<open>
  Claim C9, amended. Every \<open>onUnlData\<close> event of a roster batch carries
  \<open>isDuringStartup\<close> true exactly when \<open>validators\<close> was empty immediately
  before that batch, be it the first batch or a later one; every event of a stream manifest
  carries it false.
\<close>

theorem startup_flag_is_emptiness_before_batch:
  "(OnUnlData d \<in> set (fst (snd (getUNL e st r))) \<longrightarrow>
      isDuringStartup d = (validators st = [])) \<and>
   (OnUnlData d' \<in> set (snd (onManifestReceived e' st' m)) \<longrightarrow> isDuringStartup d' = False)"
proof (intro conjI impI)
  assume "OnUnlData d \<in> set (fst (snd (getUNL e st r)))"
  then show "isDuringStartup d = (validators st = [])" by (rule getUNL_flag)
next
  assume "OnUnlData d' \<in> set (snd (onManifestReceived e' st' m))"
  then show "isDuringStartup d' = False"
    by (cases rule: onManifestReceived_cases[of e' st' m]) auto
qed

text \<open>
  The theorem at the first roster applied to a new \<open>Network\<close> (flag true) and at a
  stream manifest that rotates \<open>A\<close> in \<open>registry_A\<close> (flag false).
\<close>

theorem startup_flag_is_emptiness_before_batch_witness:
  "OnUnlData
     \<lparr>isDuringStartup = True, isNewValidator = True, isNewManifest = True,
      validatorName = ''A'', validation_public_key_base58 = ''A'',
      unl_signing_key = ''k1'', unl_Sequence = 5, isFromManifestsStream = None\<rparr>
     \<in> set (fst (snd (getUNL example_env new_Network (roster 1 [(''A'', ''m1'')])))) \<and>
   isDuringStartup
     \<lparr>isDuringStartup = True, isNewValidator = True, isNewManifest = True,
      validatorName = ''A'', validation_public_key_base58 = ''A'',
      unl_signing_key = ''k1'', unl_Sequence = 5, isFromManifestsStream = None\<rparr> =
     (validators new_Network = []) \<and>
   OnUnlData
     \<lparr>isDuringStartup = False, isNewValidator = False, isNewManifest = True,
      validatorName = ''A'', validation_public_key_base58 = ''A'',
      unl_signing_key = ''k3'', unl_Sequence = 9, isFromManifestsStream = Some True\<rparr>
     \<in> set (snd (onManifestReceived example_env registry_A
           \<lparr>master_key = ''A'', mm_signing_key = ''k3'', seq = 9\<rparr>)) \<and>
   isDuringStartup
     \<lparr>isDuringStartup = False, isNewValidator = False, isNewManifest = True,
      validatorName = ''A'', validation_public_key_base58 = ''A'',
      unl_signing_key = ''k3'', unl_Sequence = 9, isFromManifestsStream = Some True\<rparr> = False"
  using startup_flag_is_emptiness_before_batch[where e = example_env and st = new_Network
      and r = "roster 1 [(''A'', ''m1'')]"
      and d = "\<lparr>isDuringStartup = True, isNewValidator = True, isNewManifest = True,
      validatorName = ''A'', validation_public_key_base58 = ''A'',
      unl_signing_key = ''k1'', unl_Sequence = 5, isFromManifestsStream = None\<rparr>"
      and e' = example_env and st' = registry_A
      and m = "\<lparr>master_key = ''A'', mm_signing_key = ''k3'', seq = 9\<rparr>"
      and d' = "\<lparr>isDuringStartup = False, isNewValidator = False, isNewManifest = True,
      validatorName = ''A'', validation_public_key_base58 = ''A'',
      unl_signing_key = ''k3'', unl_Sequence = 9, isFromManifestsStream = Some True\<rparr>"]
  by (simp add: registry_A_def new_Network_def example_env_def roster_def getUNL_def
      applyEntry_def onManifestReceived_def fetchName_def remove_elem_def Let_def)

text \<open>
  Claim C9 as stated has the flag false for every batch after the first. After the roster
  of version 1 that creates \<open>A\<close> and the empty roster of version 2 that removes it,
  the registry is empty again, and the event of the roster of version 3 carries the flag
  true.
\<close>

theorem startup_flag_counterexample:
  "run new_Network
     [Roster example_env (roster 1 [(''A'', ''m1'')]), Roster example_env (roster 2 [])] =
     new_Network\<lparr>lastValidatorListSequence := 2, manifestKeys := [''k1'' \<mapsto> ''A'']\<rparr> \<and>
   fst (snd (getUNL example_env
     (run new_Network
        [Roster example_env (roster 1 [(''A'', ''m1'')]), Roster example_env (roster 2 [])])
     (roster 3 [(''A'', ''m2'')]))) =
     [OnUnlData
        \<lparr>isDuringStartup = True, isNewValidator = True, isNewManifest = True,
         validatorName = ''A'', validation_public_key_base58 = ''A'',
         unl_signing_key = ''k2'', unl_Sequence = 7, isFromManifestsStream = None\<rparr>]"
  by (simp add: example_env_def roster_def new_Network_def getUNL_def applyEntry_def
      fetchName_def remove_elem_def Let_def)

text \<open>
  Claim C10. Delivering a validation vote writes nothing to the registry: the
  \<open>validators\<close> map, the signing-key index, the names cache and the stored roster
  version after the delivery are the ones before it.
\<close>

theorem vote_leaves_registry_unchanged:
  "fst (deliver e st vs now (Message (validationReceived v))) = st \<and>
   fst (step st (Frame e now (validationReceived v))) = st \<and>
   validators (fst (deliver e st vs now (Message (validationReceived v)))) = validators st \<and>
   manifestKeys (fst (deliver e st vs now (Message (validationReceived v)))) = manifestKeys st \<and>
   names (fst (deliver e st vs now (Message (validationReceived v)))) = names st \<and>
   lastValidatorListSequence (fst (deliver e st vs now (Message (validationReceived v)))) =
     lastValidatorListSequence st"
  by (simp add: deliver_message)

end
